theory Spec2Isabelle
  imports Main "HOL-Library.Sublist"
begin

section \<open>Strings and character classes\<close>

text \<open>
  A Python \<open>str\<close> is modelled as a \<open>string\<close> whose characters are the code points
  0 to 255 (the Latin-1 range of Unicode). On that range the classes used by the
  program are:
  \<^item> \<open>\s\<close> and \<open>str.strip()\<close>: the code points 9 to 13, 28 to 32, 133 and 160;
  \<^item> \<open>\d\<close>: the decimal digits 48 to 57;
  \<^item> \<open>.\<close> (no DOTALL flag): every character but the newline 10;
  \<^item> \<open>str.lower()\<close>: 65 to 90 and 192 to 222 without 215 are moved up by 32.
\<close>

definition newline :: char where
  "newline = CHR 0x0A"

definition isspace :: "char \<Rightarrow> bool" where
  "isspace c =
     (let n = (of_char c :: nat)
      in (9 \<le> n \<and> n \<le> 13) \<or> (28 \<le> n \<and> n \<le> 32) \<or> n = 133 \<or> n = 160)"

definition isdecimal :: "char \<Rightarrow> bool" where
  "isdecimal c = (let n = (of_char c :: nat) in 48 \<le> n \<and> n \<le> 57)"

definition digit_or_dot :: "char \<Rightarrow> bool" where
  \<comment> \<open>the character class \<open>[\d.]\<close>\<close>
  "digit_or_dot c = (isdecimal c \<or> c = CHR ''.'')"

definition dot :: "char \<Rightarrow> bool" where
  \<comment> \<open>the regex \<open>.\<close>\<close>
  "dot c = (c \<noteq> newline)"

definition lower_char :: "char \<Rightarrow> char" where
  "lower_char c =
     (let n = (of_char c :: nat)
      in if (65 \<le> n \<and> n \<le> 90) \<or> (192 \<le> n \<and> n \<le> 222 \<and> n \<noteq> 215)
         then char_of (n + 32) else c)"

definition py_lower :: "string \<Rightarrow> string" where
  "py_lower s = map lower_char s"

definition py_strip :: "string \<Rightarrow> string" where
  "py_strip s = rev (dropWhile isspace (rev (dropWhile isspace s)))"

text \<open>\<open>w in s\<close> on strings: \<open>w\<close> occurs in \<open>s\<close> as a contiguous substring.\<close>

fun py_in :: "string \<Rightarrow> string \<Rightarrow> bool" where
  "py_in w [] = (w = [])"
| "py_in w (c # cs) = (prefix w (c # cs) \<or> py_in w cs)"

text \<open>\<open>s[:k]\<close> and \<open>s[i:j]\<close> for Python's integers: a negative bound counts from the end.\<close>

definition py_index :: "string \<Rightarrow> int \<Rightarrow> nat" where
  "py_index s k = (if k < 0 then nat (int (length s) + k) else nat k)"

definition slice_to :: "string \<Rightarrow> int \<Rightarrow> string" where
  "slice_to s k = take (py_index s k) s"

definition slice :: "string \<Rightarrow> nat \<Rightarrow> nat \<Rightarrow> string" where
  "slice s i j = take (j - i) (drop i s)"

section \<open>The regular expression of \<open>parse_log_line\<close>\<close>

text \<open>
  The pattern \<open>query\[.*?\].*?from\s+([\d.]+)$\<close> is a sequence of items, matched by
  backtracking the way Python's \<open>re\<close> does: a lazy star first tries to go on with the
  rest of the pattern and takes one more character only when that fails; a greedy plus
  first takes as many characters as it can and gives them back one by one; \<open>$\<close> holds at
  the end of the string and just before a newline that ends the string. The position of
  the one group is carried along and returned by a successful match.
\<close>

datatype rx =
    Lit char
  | LazyStar "char \<Rightarrow> bool"
  | GreedyPlus "char \<Rightarrow> bool"
  | GroupStart
  | GroupEnd
  | AtEnd

type_synonym span = "nat \<times> nat"

fun rmatch :: "rx list \<Rightarrow> nat \<Rightarrow> string \<Rightarrow> span \<Rightarrow> span option" where
  "rmatch [] i s g = Some g"
| "rmatch (Lit a # rs) i [] g = None"
| "rmatch (Lit a # rs) i (c # cs) g = (if c = a then rmatch rs (Suc i) cs g else None)"
| "rmatch (LazyStar p # rs) i [] g = rmatch rs i [] g"
| "rmatch (LazyStar p # rs) i (c # cs) g =
     (case rmatch rs i (c # cs) g of
        Some r \<Rightarrow> Some r
      | None \<Rightarrow> if p c then rmatch (LazyStar p # rs) (Suc i) cs g else None)"
| "rmatch (GreedyPlus p # rs) i [] g = None"
| "rmatch (GreedyPlus p # rs) i (c # cs) g =
     (if p c
      then (case rmatch (GreedyPlus p # rs) (Suc i) cs g of
              Some r \<Rightarrow> Some r
            | None \<Rightarrow> rmatch rs (Suc i) cs g)
      else None)"
| "rmatch (GroupStart # rs) i s g = rmatch rs i s (i, snd g)"
| "rmatch (GroupEnd # rs) i s g = rmatch rs i s (fst g, i)"
| "rmatch (AtEnd # rs) i s g = (if s = [] \<or> s = [newline] then rmatch rs i s g else None)"

text \<open>\<open>re.search\<close>: the first position, from the left, at which the pattern matches.\<close>

fun rsearch :: "rx list \<Rightarrow> nat \<Rightarrow> string \<Rightarrow> span option" where
  "rsearch rs i [] = rmatch rs i [] (0, 0)"
| "rsearch rs i (c # cs) =
     (case rmatch rs i (c # cs) (0, 0) of
        Some r \<Rightarrow> Some r
      | None \<Rightarrow> rsearch rs (Suc i) cs)"

definition lit :: "string \<Rightarrow> rx list" where
  "lit w = map Lit w"

definition query_re :: "rx list" where
  "query_re =
     lit ''query['' @ [LazyStar dot] @ lit '']'' @ [LazyStar dot] @ lit ''from'' @
     [GreedyPlus isspace, GroupStart, GreedyPlus digit_or_dot, GroupEnd, AtEnd]"

definition re_search :: "string \<Rightarrow> span option" where
  \<comment> \<open>\<open>(match.start(1), match.end(1))\<close> of the search, \<open>None\<close> when nothing matches\<close>
  "re_search line = rsearch query_re 0 line"

section \<open>The streamer\<close>

datatype exn = Herror | Gaierror | RuntimeError | Other_exception

record streamer =
  hostname :: string
  username :: string
  color :: string
  client :: bool
  dns_cache :: "string \<rightharpoonup> string"
  last_query_ip :: "string option"

definition RESET :: string where "RESET = CHR 0x1B # ''[0m''"
definition BOLD :: string where "BOLD = CHR 0x1B # ''[1m''"
definition RED :: string where "RED = CHR 0x1B # ''[91m''"
definition GREEN :: string where "GREEN = CHR 0x1B # ''[92m''"
definition YELLOW :: string where "YELLOW = CHR 0x1B # ''[93m''"
definition BLUE :: string where "BLUE = CHR 0x1B # ''[94m''"
definition MAGENTA :: string where "MAGENTA = CHR 0x1B # ''[95m''"
definition CYAN :: string where "CYAN = CHR 0x1B # ''[96m''"

definition init :: "string \<Rightarrow> string \<Rightarrow> string \<Rightarrow> streamer" where
  \<comment> \<open>\<open>PiHoleStreamer.__init__\<close>\<close>
  "init h u col =
     \<lparr>hostname = h, username = u, color = col, client = False,
      dns_cache = Map.empty, last_query_ip = None\<rparr>"

subsection \<open>\<open>resolve_hostname\<close>\<close>

text \<open>
  \<open>socket.gethostbyaddr(ip)[0]\<close> is outside the program: it is a parameter \<open>dns\<close> that
  gives, for an address, a name or the exception raised. Every call is recorded in a log
  of the addresses asked for, so that the number of external lookups can be counted.
  The \<open>except\<close> clause catches \<open>socket.herror\<close> and \<open>socket.gaierror\<close>; any other
  exception leaves \<open>resolve_hostname\<close>, and then the cache is not written.
\<close>

type_synonym dns = "string \<Rightarrow> exn + string"

definition gethostbyaddr :: "dns \<Rightarrow> string \<Rightarrow> string list \<Rightarrow> (exn + string) \<times> string list" where
  "gethostbyaddr d ip calls = (d ip, calls @ [ip])"

definition resolve_hostname ::
  "dns \<Rightarrow> streamer \<Rightarrow> string list \<Rightarrow> string \<Rightarrow> (exn + string) \<times> streamer \<times> string list" where
  "resolve_hostname d st calls ip =
     (case dns_cache st ip of
        Some h \<Rightarrow> (Inr h, st, calls)
      | None \<Rightarrow>
          (case gethostbyaddr d ip calls of
             (Inr h, calls') \<Rightarrow> (Inr h, st\<lparr>dns_cache := (dns_cache st)(ip \<mapsto> h)\<rparr>, calls')
           | (Inl e, calls') \<Rightarrow>
               if e = Herror \<or> e = Gaierror
               then (Inr ip, st\<lparr>dns_cache := (dns_cache st)(ip \<mapsto> ip)\<rparr>, calls')
               else (Inl e, st, calls')))"

subsection \<open>\<open>parse_log_line\<close>\<close>

definition block_phrase :: "string \<Rightarrow> bool" where
  "block_phrase line =
     (py_in ''gravity blocked'' (py_lower line) \<or>
      py_in ''exactly blocked'' (py_lower line) \<or>
      py_in ''exactly denied'' (py_lower line))"

definition truthy :: "string option \<Rightarrow> bool" where
  \<comment> \<open>the truth value of an \<open>Optional[str]\<close>: \<open>None\<close> and the empty string are false\<close>
  "truthy x = (case x of None \<Rightarrow> False | Some s \<Rightarrow> s \<noteq> [])"

type_synonym parsed = "string \<times> string \<times> bool"

definition parse_log_line :: "streamer \<Rightarrow> string \<Rightarrow> parsed option \<times> streamer" where
  "parse_log_line st line =
     (case re_search line of
        Some (start1, end1) \<Rightarrow>
          (let ip = slice line start1 end1;
               query_part = slice_to line (int start1 - 6)
           in (Some (query_part, ip, False), st\<lparr>last_query_ip := Some ip\<rparr>))
      | None \<Rightarrow>
          if block_phrase line
          then (if truthy (last_query_ip st)
                then (Some (line, the (last_query_ip st), True), st)
                else (None, st))
          else (None, st))"

subsection \<open>\<open>stream_logs\<close>\<close>

text \<open>
  The remote session is the list of what \<open>stdout.readline\<close> returns, each raw line paired
  with the reading of the clock (\<open>datetime.now().strftime('%H:%M:%S')\<close>) at the moment the
  line is handled. An empty raw line is the end of the stream, and so is the end of the
  list. The queue is the list of the strings put on it, oldest first. The function returns
  the exception that ended it, if any, the streamer, the log of external lookups and the
  queue.
\<close>

definition host_display :: "string \<Rightarrow> string \<Rightarrow> string" where
  "host_display h ip = (if h \<noteq> ip then h @ '' ('' @ ip @ '')'' else ip)"

definition formatted_blocked :: "streamer \<Rightarrow> string \<Rightarrow> string \<Rightarrow> string \<Rightarrow> string" where
  "formatted_blocked st timestamp label query_part =
     BOLD @ ''['' @ timestamp @ ''] '' @ color st @ ''['' @ hostname st @ '']'' @ RESET @
     '' '' @ YELLOW @ ''['' @ label @ '']'' @ RESET @ '' '' @ RED @ query_part @ RESET"

definition formatted_query :: "streamer \<Rightarrow> string \<Rightarrow> string \<Rightarrow> string \<Rightarrow> string" where
  "formatted_query st timestamp label query_part =
     ''['' @ timestamp @ ''] '' @ color st @ ''['' @ hostname st @ '']'' @ RESET @
     '' '' @ YELLOW @ ''['' @ label @ '']'' @ RESET @ '' '' @ query_part"

definition formatted_verbose :: "streamer \<Rightarrow> string \<Rightarrow> string \<Rightarrow> string" where
  "formatted_verbose st timestamp line =
     ''['' @ timestamp @ ''] '' @ color st @ ''['' @ hostname st @ '']'' @ RESET @ '' '' @ line"

definition host_filtered_out :: "string option \<Rightarrow> string \<Rightarrow> string \<Rightarrow> bool" where
  \<comment> \<open>\<open>filter_host and filter_host.lower() not in hostname.lower() and filter_host != ip\<close>\<close>
  "host_filtered_out filter_host h ip =
     (case filter_host of
        None \<Rightarrow> False
      | Some f \<Rightarrow> f \<noteq> [] \<and> \<not> py_in (py_lower f) (py_lower h) \<and> f \<noteq> ip)"

type_synonym run = "exn option \<times> streamer \<times> string list \<times> string list"

definition stream_logs_body ::
  "dns \<Rightarrow> bool \<Rightarrow> string option \<Rightarrow> bool \<Rightarrow> string \<Rightarrow> string \<Rightarrow>
   streamer \<Rightarrow> string list \<Rightarrow> string list \<Rightarrow> run" where
  \<comment> \<open>one turn of the \<open>while\<close> loop, for a raw line that is not the end of the stream\<close>
  "stream_logs_body d show_blocked_only filter_host verbose timestamp raw st calls queue =
     (let line = py_strip raw
      in if line = [] then (None, st, calls, queue)
         else
           (case parse_log_line st line of
              (Some (query_part, ip, is_blocked), st1) \<Rightarrow>
                if show_blocked_only \<and> \<not> is_blocked then (None, st1, calls, queue)
                else
                  (case resolve_hostname d st1 calls ip of
                     (Inl e, st2, calls2) \<Rightarrow> (Some e, st2, calls2, queue)
                   | (Inr h, st2, calls2) \<Rightarrow>
                       if host_filtered_out filter_host h ip then (None, st2, calls2, queue)
                       else if is_blocked
                       then (None, st2, calls2,
                             queue @ [formatted_blocked st2 timestamp (host_display h ip) query_part])
                       else (None, st2, calls2,
                             queue @ [formatted_query st2 timestamp (host_display h ip) query_part]))
            | (None, st1) \<Rightarrow>
                if verbose \<and> \<not> truthy filter_host \<and> \<not> show_blocked_only
                then (None, st1, calls, queue @ [formatted_verbose st1 timestamp line])
                else (None, st1, calls, queue)))"

fun stream_logs_loop ::
  "dns \<Rightarrow> bool \<Rightarrow> string option \<Rightarrow> bool \<Rightarrow> (string \<times> string) list \<Rightarrow>
   streamer \<Rightarrow> string list \<Rightarrow> string list \<Rightarrow> run" where
  "stream_logs_loop d b f v [] st calls queue = (None, st, calls, queue)"
| "stream_logs_loop d b f v ((timestamp, raw) # rest) st calls queue =
     (if raw = [] then (None, st, calls, queue)
      else
        (case stream_logs_body d b f v timestamp raw st calls queue of
           (Some e, r) \<Rightarrow> (Some e, r)
         | (None, st', calls', queue') \<Rightarrow> stream_logs_loop d b f v rest st' calls' queue'))"

definition stream_logs ::
  "dns \<Rightarrow> bool \<Rightarrow> string option \<Rightarrow> bool \<Rightarrow> (string \<times> string) list \<Rightarrow>
   streamer \<Rightarrow> string list \<Rightarrow> string list \<Rightarrow> run" where
  "stream_logs d show_blocked_only filter_host verbose stdout st calls queue =
     (if \<not> client st then (Some RuntimeError, st, calls, queue)
      else stream_logs_loop d show_blocked_only filter_host verbose stdout st calls queue)"

subsection \<open>Classifying the lines of one source in order\<close>

text \<open>
  \<open>stream_logs\<close> calls \<open>parse_log_line\<close> on the same streamer for every line it reads;
  \<open>parse_log_lines\<close> is that sequence of calls alone, with the result of each.
\<close>

fun parse_log_lines :: "streamer \<Rightarrow> string list \<Rightarrow> parsed option list \<times> streamer" where
  "parse_log_lines st [] = ([], st)"
| "parse_log_lines st (l # ls) =
     (case parse_log_line st l of
        (ev, st1) \<Rightarrow> (case parse_log_lines st1 ls of (evs, st2) \<Rightarrow> (ev # evs, st2)))"

section \<open>Notions and scenario data of the specification\<close>

text \<open>
  A well-formed dotted-decimal address, as the specification words it: four fields
  separated by dots, each a decimal number of one to three digits that is at most 255.
  The program has no such test; the definition is only used to compare the program
  with the specification.
\<close>

fun split_on :: "char \<Rightarrow> string \<Rightarrow> string list" where
  "split_on c [] = [[]]"
| "split_on c (x # xs) =
     (if x = c then [] # split_on c xs
      else (case split_on c xs of [] \<Rightarrow> [[x]] | y # ys \<Rightarrow> (x # y) # ys))"

definition decimal_value :: "string \<Rightarrow> nat" where
  "decimal_value s = foldl (\<lambda>n c. 10 * n + (of_char c - 48)) 0 s"

definition spec_octet :: "string \<Rightarrow> bool" where
  "spec_octet s = (s \<noteq> [] \<and> length s \<le> 3 \<and> list_all isdecimal s \<and> decimal_value s \<le> 255)"

definition spec_dotted_decimal :: "string \<Rightarrow> bool" where
  "spec_dotted_decimal s =
     (length (split_on (CHR ''.'') s) = 4 \<and> list_all spec_octet (split_on (CHR ''.'') s))"

text \<open>The end-to-end scenario of the specification: its two lines and its resolver.\<close>

definition scenario_query :: string where
  "scenario_query = ''Oct  4 14:18:46: query[A] example.com from 192.168.1.100''"

definition scenario_block :: string where
  "scenario_block = ''Oct  4 14:18:47: gravity blocked ads.example.com is 0.0.0.0''"

definition scenario_dns :: dns where
  "scenario_dns ip = (if ip = ''192.168.1.100'' then Inr ''laptop.local'' else Inl Herror)"

definition connected :: "string \<Rightarrow> string \<Rightarrow> string \<Rightarrow> streamer" where
  \<comment> \<open>a new streamer after \<open>connect\<close> has set its client\<close>
  "connected h u col = (init h u col)\<lparr>client := True\<rparr>"

section \<open>The matcher\<close>


lemma rmatch_lit:
  "rmatch (lit w @ rs) i s g =
     (if prefix w s then rmatch rs (i + length w) (drop (length w) s) g else None)"
proof (induction w arbitrary: i s)
  case Nil
  then show ?case by (simp add: lit_def)
next
  case (Cons a w)
  have step: "\<And>j t. rmatch (map Lit w @ rs) j t g =
     (if prefix w t then rmatch rs (j + length w) (drop (length w) t) g else None)"
    using Cons.IH by (simp add: lit_def)
  show ?case
  proof (cases s)
    case Nil
    then show ?thesis by (simp add: lit_def)
  next
    case (Cons c cs)
    then show ?thesis by (auto simp: lit_def step)
  qed
qed

lemma lazy_star_sound:
  "rmatch (LazyStar p # rs) i s g = Some r \<Longrightarrow>
   \<exists>u v. s = u @ v \<and> list_all p u \<and> rmatch rs (i + length u) v g = Some r"
proof (induction s arbitrary: i)
  case Nil
  then show ?case by simp
next
  case (Cons c cs)
  show ?case
  proof (cases "rmatch rs i (c # cs) g")
    case (Some r')
    with Cons.prems have "rmatch rs (i + length ([]::string)) (c # cs) g = Some r" by simp
    then have "c # cs = [] @ (c # cs) \<and> list_all p [] \<and>
        rmatch rs (i + length ([]::string)) (c # cs) g = Some r" by simp
    then show ?thesis by blast
  next
    case None
    with Cons.prems have pc: "p c" and rec: "rmatch (LazyStar p # rs) (Suc i) cs g = Some r"
      by (auto split: if_splits)
    from Cons.IH [OF rec] obtain u v where
      "cs = u @ v" "list_all p u" "rmatch rs (Suc i + length u) v g = Some r" by blast
    with pc have "c # cs = (c # u) @ v \<and> list_all p (c # u) \<and>
        rmatch rs (i + length (c # u)) v g = Some r" by simp
    then show ?thesis by blast
  qed
qed

lemma lazy_star_complete:
  "list_all p u \<Longrightarrow> rmatch rs (i + length u) v g = Some r \<Longrightarrow>
   \<exists>r'. rmatch (LazyStar p # rs) i (u @ v) g = Some r'"
proof (induction u arbitrary: i)
  case Nil
  then show ?case by (cases v) (auto split: option.splits)
next
  case (Cons a u)
  from Cons.prems have "list_all p u" "rmatch rs (Suc i + length u) v g = Some r" by simp_all
  from Cons.IH [OF this] obtain r' where "rmatch (LazyStar p # rs) (Suc i) (u @ v) g = Some r'"
    by blast
  with Cons.prems(1) show ?case by (auto split: option.splits)
qed

lemma greedy_plus_sound:
  "rmatch (GreedyPlus p # rs) i s g = Some r \<Longrightarrow>
   \<exists>u v. s = u @ v \<and> u \<noteq> [] \<and> list_all p u \<and> rmatch rs (i + length u) v g = Some r"
proof (induction s arbitrary: i)
  case Nil
  then show ?case by simp
next
  case (Cons c cs)
  from Cons.prems have pc: "p c" by (auto split: if_splits)
  show ?case
  proof (cases "rmatch (GreedyPlus p # rs) (Suc i) cs g")
    case (Some r')
    with Cons.prems pc have rec: "rmatch (GreedyPlus p # rs) (Suc i) cs g = Some r" by simp
    from Cons.IH [OF rec] obtain u v where
      "cs = u @ v" "list_all p u" "rmatch rs (Suc i + length u) v g = Some r" by blast
    with pc have "c # cs = (c # u) @ v \<and> c # u \<noteq> [] \<and> list_all p (c # u) \<and>
        rmatch rs (i + length (c # u)) v g = Some r" by simp
    then show ?thesis by blast
  next
    case None
    with Cons.prems pc have "c # cs = [c] @ cs \<and> [c] \<noteq> [] \<and> list_all p [c] \<and>
        rmatch rs (i + length [c]) cs g = Some r" by simp
    then show ?thesis by blast
  qed
qed

lemma greedy_plus_complete:
  "u \<noteq> [] \<Longrightarrow> list_all p u \<Longrightarrow> rmatch rs (i + length u) v g = Some r \<Longrightarrow>
   \<exists>r'. rmatch (GreedyPlus p # rs) i (u @ v) g = Some r'"
proof (induction u arbitrary: i)
  case Nil
  then show ?case by simp
next
  case (Cons a u)
  show ?case
  proof (cases "u = []")
    case True
    with Cons.prems show ?thesis by (auto split: option.splits)
  next
    case False
    from Cons.prems have "list_all p u" "rmatch rs (Suc i + length u) v g = Some r" by simp_all
    from Cons.IH [OF False this] obtain r' where
      "rmatch (GreedyPlus p # rs) (Suc i) (u @ v) g = Some r'" by blast
    with Cons.prems(2) show ?thesis by (auto split: option.splits)
  qed
qed

lemma rsearch_sound:
  "rsearch rs i s = Some r \<Longrightarrow>
   \<exists>x v. s = x @ v \<and> rmatch rs (i + length x) v (0, 0) = Some r"
proof (induction s arbitrary: i)
  case Nil
  then show ?case by simp
next
  case (Cons c cs)
  show ?case
  proof (cases "rmatch rs i (c # cs) (0, 0)")
    case (Some r')
    with Cons.prems have "rmatch rs (i + length ([]::string)) (c # cs) (0, 0) = Some r" by simp
    then show ?thesis by (metis append_Nil)
  next
    case None
    with Cons.prems have "rsearch rs (Suc i) cs = Some r" by simp
    from Cons.IH [OF this] obtain x v where
      "cs = x @ v" "rmatch rs (Suc i + length x) v (0, 0) = Some r" by blast
    then have "c # cs = (c # x) @ v \<and> rmatch rs (i + length (c # x)) v (0, 0) = Some r" by simp
    then show ?thesis by blast
  qed
qed

lemma rsearch_complete:
  "rmatch rs (i + length x) v (0, 0) = Some r \<Longrightarrow> \<exists>r'. rsearch rs i (x @ v) = Some r'"
proof (induction x arbitrary: i)
  case Nil
  then show ?case by (cases v) (auto split: option.splits)
next
  case (Cons a x)
  from Cons.prems have "rmatch rs (Suc i + length x) v (0, 0) = Some r" by simp
  from Cons.IH [OF this] show ?case by (auto split: option.splits)
qed



lemma isspace_not_digit_or_dot: "isspace c \<Longrightarrow> \<not> digit_or_dot c"
  by (auto simp: isspace_def digit_or_dot_def isdecimal_def Let_def)

lemma newline_not_digit_or_dot: "\<not> digit_or_dot newline"
  by (simp add: digit_or_dot_def isdecimal_def newline_def)

lemma rmatch_lit_n:
  "length w = n \<Longrightarrow> rmatch (lit w @ rs) i s g =
     (if prefix w s then rmatch rs (i + n) (drop n s) g else None)"
  using rmatch_lit [of w rs i s g] by simp

lemma rmatch_query_lit:
  "rmatch (lit ''query['' @ rs) i s g =
     (if prefix ''query['' s then rmatch rs (i + 6) (drop 6 s) g else None)"
  by (rule rmatch_lit_n) simp

lemma rmatch_bracket_lit:
  "rmatch (lit '']'' @ rs) i s g =
     (if prefix '']'' s then rmatch rs (i + 1) (drop 1 s) g else None)"
  by (rule rmatch_lit_n) simp

lemma rmatch_from_lit:
  "rmatch (lit ''from'' @ rs) i s g =
     (if prefix ''from'' s then rmatch rs (i + 4) (drop 4 s) g else None)"
  by (rule rmatch_lit_n) simp


lemma group_sound:
  assumes "rmatch [GroupStart, GreedyPlus digit_or_dot, GroupEnd, AtEnd] j v g = Some r"
  shows "\<exists>D E. v = D @ E \<and> D \<noteq> [] \<and> list_all digit_or_dot D \<and> (E = [] \<or> E = [newline]) \<and>
           r = (j, j + length D)"
proof -
  from assms have "rmatch (GreedyPlus digit_or_dot # [GroupEnd, AtEnd]) j v (j, snd g) = Some r"
    by simp
  from greedy_plus_sound [OF this] obtain D E where
    v: "v = D @ E" and D: "D \<noteq> []" "list_all digit_or_dot D" and
    e: "rmatch [GroupEnd, AtEnd] (j + length D) E (j, snd g) = Some r" by blast
  from e have "(E = [] \<or> E = [newline]) \<and> r = (j, j + length D)"
    by (auto split: if_splits)
  with v D show ?thesis by blast
qed

lemma group_complete:
  assumes "D \<noteq> []" "list_all digit_or_dot D" "E = [] \<or> E = [newline]"
  shows "\<exists>r. rmatch [GroupStart, GreedyPlus digit_or_dot, GroupEnd, AtEnd] j (D @ E) g = Some r"
proof -
  from assms(3) have "rmatch [GroupEnd, AtEnd] (j + length D) E (j, snd g) = Some (j, j + length D)"
    by auto
  from greedy_plus_complete [OF assms(1,2) this] show ?thesis by simp
qed

lemma query_re_sound:
  assumes "rmatch query_re i s g = Some r"
  shows "\<exists>A B W D E. s = ''query['' @ A @ '']'' @ B @ ''from'' @ W @ D @ E \<and>
           list_all dot A \<and> list_all dot B \<and> W \<noteq> [] \<and> list_all isspace W \<and>
           D \<noteq> [] \<and> list_all digit_or_dot D \<and> (E = [] \<or> E = [newline]) \<and>
           r = (i + 11 + length A + length B + length W,
                i + 11 + length A + length B + length W + length D)"
proof -
  define r3 where "r3 = [GreedyPlus isspace, GroupStart, GreedyPlus digit_or_dot, GroupEnd, AtEnd]"
  define r2 where "r2 = LazyStar dot # lit ''from'' @ r3"
  define r1 where "r1 = LazyStar dot # lit '']'' @ r2"
  have q: "query_re = lit ''query['' @ r1"
    by (simp add: query_re_def r1_def r2_def r3_def)
  from assms have p1: "prefix ''query['' s" and
    m1: "rmatch r1 (i + 6) (drop 6 s) g = Some r"
    unfolding q rmatch_query_lit by (simp_all split: if_splits)
  from p1 obtain s1 where s: "s = ''query['' @ s1" by (auto elim: prefixE)
  with m1 have "rmatch (LazyStar dot # lit '']'' @ r2) (i + 6) s1 g = Some r"
    by (simp add: r1_def)
  from lazy_star_sound [OF this] obtain A s2 where
    s1: "s1 = A @ s2" and A: "list_all dot A" and
    m2: "rmatch (lit '']'' @ r2) (i + 6 + length A) s2 g = Some r" by blast
  from m2 have p2: "prefix '']'' s2" and
    m3: "rmatch r2 (i + 6 + length A + 1) (drop 1 s2) g = Some r"
    unfolding rmatch_bracket_lit by (simp_all split: if_splits)
  from p2 obtain s3 where s2: "s2 = '']'' @ s3" by (auto elim: prefixE)
  with m3 have "rmatch (LazyStar dot # lit ''from'' @ r3) (i + 7 + length A) s3 g = Some r"
    by (simp add: r2_def ac_simps)
  from lazy_star_sound [OF this] obtain B s4 where
    s3: "s3 = B @ s4" and B: "list_all dot B" and
    m4: "rmatch (lit ''from'' @ r3) (i + 7 + length A + length B) s4 g = Some r" by blast
  from m4 have p4: "prefix ''from'' s4" and
    m5: "rmatch r3 (i + 7 + length A + length B + 4) (drop 4 s4) g = Some r"
    unfolding rmatch_from_lit by (simp_all split: if_splits)
  from p4 obtain s5 where s4: "s4 = ''from'' @ s5" by (auto elim: prefixE)
  with m5 have "rmatch (GreedyPlus isspace # [GroupStart, GreedyPlus digit_or_dot, GroupEnd, AtEnd])
       (i + 11 + length A + length B) s5 g = Some r"
    by (simp add: r3_def ac_simps)
  from greedy_plus_sound [OF this] obtain W s6 where
    s5: "s5 = W @ s6" and W: "W \<noteq> []" "list_all isspace W" and
    m6: "rmatch [GroupStart, GreedyPlus digit_or_dot, GroupEnd, AtEnd]
           (i + 11 + length A + length B + length W) s6 g = Some r" by blast
  from group_sound [OF m6] obtain D E where
    s6: "s6 = D @ E" and D: "D \<noteq> []" "list_all digit_or_dot D" and
    E: "E = [] \<or> E = [newline]" and
    r: "r = (i + 11 + length A + length B + length W,
             i + 11 + length A + length B + length W + length D)" by blast
  have "s = ''query['' @ A @ '']'' @ B @ ''from'' @ W @ D @ E"
    by (simp add: s s1 s2 s3 s4 s5 s6)
  with A B W D E r show ?thesis by blast
qed

lemma query_re_complete:
  assumes "list_all dot A" "list_all dot B" "W \<noteq> []" "list_all isspace W"
    "D \<noteq> []" "list_all digit_or_dot D" "E = [] \<or> E = [newline]"
  shows "\<exists>r. rmatch query_re i (''query['' @ A @ '']'' @ B @ ''from'' @ W @ D @ E) g = Some r"
proof -
  define r3 where "r3 = [GroupStart, GreedyPlus digit_or_dot, GroupEnd, AtEnd]"
  define r2 where "r2 = lit ''from'' @ GreedyPlus isspace # r3"
  define r1 where "r1 = lit '']'' @ LazyStar dot # r2"
  have q: "query_re = lit ''query['' @ LazyStar dot # r1"
    by (simp add: query_re_def r1_def r2_def r3_def)
  let ?j = "i + 6 + length A + 1 + length B + 4"
  from group_complete [OF assms(5,6,7)] obtain x1 where
    "rmatch r3 (?j + length W) (D @ E) g = Some x1" unfolding r3_def by blast
  from greedy_plus_complete [OF assms(3,4) this] obtain x2 where
    "rmatch (GreedyPlus isspace # r3) ?j (W @ D @ E) g = Some x2" by blast
  then have "rmatch r2 (i + 6 + length A + 1 + length B) (''from'' @ W @ D @ E) g = Some x2"
    unfolding r2_def rmatch_from_lit by simp
  from lazy_star_complete [OF assms(2) this] obtain x3 where
    "rmatch (LazyStar dot # r2) (i + 6 + length A + 1) (B @ ''from'' @ W @ D @ E) g = Some x3"
    by blast
  then have "rmatch r1 (i + 6 + length A) ('']'' @ B @ ''from'' @ W @ D @ E) g = Some x3"
    unfolding r1_def rmatch_bracket_lit by simp
  from lazy_star_complete [OF assms(1) this] obtain x4 where
    "rmatch (LazyStar dot # r1) (i + 6) (A @ '']'' @ B @ ''from'' @ W @ D @ E) g = Some x4"
    by blast
  then have "rmatch query_re i (''query['' @ A @ '']'' @ B @ ''from'' @ W @ D @ E) g = Some x4"
    unfolding q rmatch_query_lit by simp
  then show ?thesis by blast
qed



lemma re_search_sound:
  assumes "re_search line = Some (s1, e1)"
  shows "\<exists>X A B W D E. line = X @ ''query['' @ A @ '']'' @ B @ ''from'' @ W @ D @ E \<and>
           list_all dot A \<and> list_all dot B \<and> W \<noteq> [] \<and> list_all isspace W \<and>
           D \<noteq> [] \<and> list_all digit_or_dot D \<and> (E = [] \<or> E = [newline]) \<and>
           s1 = length X + 11 + length A + length B + length W \<and> e1 = s1 + length D"
proof -
  from assms have "rsearch query_re 0 line = Some (s1, e1)" by (simp add: re_search_def)
  from rsearch_sound [OF this] obtain X v where
    l: "line = X @ v" and m: "rmatch query_re (0 + length X) v (0, 0) = Some (s1, e1)" by blast
  from query_re_sound [OF m] obtain A B W D E where
    "v = ''query['' @ A @ '']'' @ B @ ''from'' @ W @ D @ E"
    "list_all dot A" "list_all dot B" "W \<noteq> []" "list_all isspace W"
    "D \<noteq> []" "list_all digit_or_dot D" "E = [] \<or> E = [newline]"
    "(s1, e1) = (0 + length X + 11 + length A + length B + length W,
                 0 + length X + 11 + length A + length B + length W + length D)" by blast
  with l have "line = X @ ''query['' @ A @ '']'' @ B @ ''from'' @ W @ D @ E \<and>
           list_all dot A \<and> list_all dot B \<and> W \<noteq> [] \<and> list_all isspace W \<and>
           D \<noteq> [] \<and> list_all digit_or_dot D \<and> (E = [] \<or> E = [newline]) \<and>
           s1 = length X + 11 + length A + length B + length W \<and> e1 = s1 + length D"
    by simp
  then show ?thesis by blast
qed

lemma re_search_complete:
  assumes "list_all dot A" "list_all dot B" "W \<noteq> []" "list_all isspace W"
    "D \<noteq> []" "list_all digit_or_dot D" "E = [] \<or> E = [newline]"
  shows "\<exists>r. re_search (X @ ''query['' @ A @ '']'' @ B @ ''from'' @ W @ D @ E) = Some r"
proof -
  from query_re_complete [OF assms] obtain r where
    "rmatch query_re (0 + length X) (''query['' @ A @ '']'' @ B @ ''from'' @ W @ D @ E) (0, 0) = Some r"
    by blast
  from rsearch_complete [OF this] show ?thesis by (simp add: re_search_def)
qed

lemma suffix_run_unique:
  assumes eq: "Q @ D = Q' @ D'"
    and Q: "Q \<noteq> []" "\<not> P (last Q)" and Q': "Q' \<noteq> []" "\<not> P (last Q')"
    and D: "list_all P D" and D': "list_all P D'"
  shows "Q = Q' \<and> D = D'"
proof -
  have tw: "takeWhile P (rev d @ rev q) = rev d"
    if "list_all P d" "q \<noteq> []" "\<not> P (last q)" for d q :: "'a list"
  proof -
    from that(2) have rq: "rev q = last q # rev (butlast q)"
      by (cases q rule: rev_cases) simp_all
    have "takeWhile P (rev q) = []"
      by (subst rq) (simp add: that(3))
    moreover from that(1) have "\<And>x. x \<in> set (rev d) \<Longrightarrow> P x" by (simp add: list_all_iff)
    then have "takeWhile P (rev d @ rev q) = rev d @ takeWhile P (rev q)"
      by (rule takeWhile_append2)
    ultimately show ?thesis by simp
  qed
  from eq have "rev D @ rev Q = rev D' @ rev Q'" by (metis rev_append)
  then have "takeWhile P (rev D @ rev Q) = takeWhile P (rev D' @ rev Q')" by simp
  then have "rev D = rev D'" using tw [OF D Q] tw [OF D' Q'] by simp
  then have "D = D'" by simp
  with eq show ?thesis by simp
qed

lemma tail_unique:
  assumes eq: "Q @ D @ E = Q' @ D' @ E'"
    and Q: "Q \<noteq> []" "\<not> digit_or_dot (last Q)" and Q': "Q' \<noteq> []" "\<not> digit_or_dot (last Q')"
    and D: "D \<noteq> []" "list_all digit_or_dot D" and D': "D' \<noteq> []" "list_all digit_or_dot D'"
    and E: "E = [] \<or> E = [newline]" and E': "E' = [] \<or> E' = [newline]"
  shows "Q = Q' \<and> D = D' \<and> E = E'"
proof -
  have lastD: "digit_or_dot (last D)" "digit_or_dot (last D')"
    using D D' by (simp_all add: list_all_iff)
  have EE: "E = E'"
  proof (rule ccontr)
    assume ne: "E \<noteq> E'"
    from E E' ne consider "E = []" "E' = [newline]" | "E = [newline]" "E' = []" by blast
    then show False
    proof cases
      case 1
      with eq have "last (Q @ D) = last ((Q' @ D') @ [newline])" by simp
      with D(1) have "last D = newline" by simp
      with lastD newline_not_digit_or_dot show False by simp
    next
      case 2
      with eq have "last ((Q @ D) @ [newline]) = last (Q' @ D')" by simp
      with D'(1) have "last D' = newline" by simp
      with lastD newline_not_digit_or_dot show False by simp
    qed
  qed
  with eq have "Q @ D = Q' @ D'" by (metis append_assoc append_same_eq)
  from suffix_run_unique [OF this Q Q' D(2) D'(2)] EE show ?thesis by simp
qed

lemma re_search_exact:
  assumes A: "list_all dot A" and B: "list_all dot B"
    and W: "W \<noteq> []" "list_all isspace W"
    and D: "D \<noteq> []" "list_all digit_or_dot D" and E: "E = [] \<or> E = [newline]"
  shows "re_search (X @ ''query['' @ A @ '']'' @ B @ ''from'' @ W @ D @ E) =
         Some (length (X @ ''query['' @ A @ '']'' @ B @ ''from'' @ W),
               length (X @ ''query['' @ A @ '']'' @ B @ ''from'' @ W) + length D)"
proof -
  let ?Q = "X @ ''query['' @ A @ '']'' @ B @ ''from'' @ W"
  let ?line = "X @ ''query['' @ A @ '']'' @ B @ ''from'' @ W @ D @ E"
  from re_search_complete [OF assms] obtain r where r: "re_search ?line = Some r" by blast
  obtain s1 e1 where se: "r = (s1, e1)" by (cases r)
  from re_search_sound [OF r [unfolded se]] obtain X' A' B' W' D' E' where
    l: "?line = X' @ ''query['' @ A' @ '']'' @ B' @ ''from'' @ W' @ D' @ E'" and
    W': "W' \<noteq> []" "list_all isspace W'" and
    D': "D' \<noteq> []" "list_all digit_or_dot D'" and E': "E' = [] \<or> E' = [newline]" and
    s1: "s1 = length X' + 11 + length A' + length B' + length W'" and
    e1: "e1 = s1 + length D'" by blast
  let ?Q' = "X' @ ''query['' @ A' @ '']'' @ B' @ ''from'' @ W'"
  have lastQ: "\<not> digit_or_dot (last ?Q)"
    using W by (simp add: list_all_iff isspace_not_digit_or_dot)
  have lastQ': "\<not> digit_or_dot (last ?Q')"
    using W' by (simp add: list_all_iff isspace_not_digit_or_dot)
  from l have eq: "?Q @ D @ E = ?Q' @ D' @ E'" by simp
  have "?Q = ?Q' \<and> D = D' \<and> E = E'"
    by (rule tail_unique [OF eq _ lastQ _ lastQ' D D' E E']) simp_all
  then have "length ?Q = length ?Q'" "D = D'" by simp_all
  with s1 e1 have "s1 = length ?Q" "e1 = length ?Q + length D" by simp_all
  with r se show ?thesis by simp
qed

section \<open>Classification of one line\<close>


lemma slice_middle: "slice (Q @ D @ E) (length Q) (length Q + length D) = D"
  by (simp add: slice_def)

lemma slice_to_nat: "6 \<le> n \<Longrightarrow> slice_to s (int n - 6) = take (n - 6) s"
  by (simp add: slice_to_def py_index_def nat_diff_distrib')

lemma parse_query:
  "re_search line = Some (s1, e1) \<Longrightarrow>
   parse_log_line st line =
     (Some (slice_to line (int s1 - 6), slice line s1 e1, False),
      st\<lparr>last_query_ip := Some (slice line s1 e1)\<rparr>)"
  by (simp add: parse_log_line_def Let_def)

lemma parse_no_query:
  "re_search line = None \<Longrightarrow>
   parse_log_line st line =
     (if block_phrase line \<and> truthy (last_query_ip st)
      then Some (line, the (last_query_ip st), True) else None, st)"
  by (simp add: parse_log_line_def)

lemma parse_query_shape:
  assumes A: "list_all dot A" and B: "list_all dot B"
    and W: "W \<noteq> []" "list_all isspace W"
    and D: "D \<noteq> []" "list_all digit_or_dot D" and E: "E = [] \<or> E = [newline]"
    and Q: "Q = X @ ''query['' @ A @ '']'' @ B @ ''from'' @ W"
  shows "parse_log_line st (Q @ D @ E) =
         (Some (take (length Q - 6) (Q @ D @ E), D, False), st\<lparr>last_query_ip := Some D\<rparr>)"
proof -
  have line: "Q @ D @ E = X @ ''query['' @ A @ '']'' @ B @ ''from'' @ W @ D @ E"
    by (simp add: Q)
  have "re_search (Q @ D @ E) = Some (length Q, length Q + length D)"
    unfolding line using re_search_exact [OF A B W D E, of X] by (simp add: Q)
  from parse_query [OF this, of st] have
    "parse_log_line st (Q @ D @ E) =
       (Some (slice_to (Q @ D @ E) (int (length Q) - 6),
              slice (Q @ D @ E) (length Q) (length Q + length D), False),
        st\<lparr>last_query_ip := Some (slice (Q @ D @ E) (length Q) (length Q + length D))\<rparr>)" .
  moreover have "6 \<le> length Q" by (simp add: Q)
  ultimately show ?thesis by (simp add: slice_middle slice_to_nat)
qed

lemma query_event_shape:
  assumes "parse_log_line st line = (Some (d, a, False), st')"
  shows "\<exists>X A B W E. line = X @ ''query['' @ A @ '']'' @ B @ ''from'' @ W @ a @ E \<and>
           list_all dot A \<and> list_all dot B \<and> W \<noteq> [] \<and> list_all isspace W \<and>
           a \<noteq> [] \<and> list_all digit_or_dot a \<and> (E = [] \<or> E = [newline]) \<and>
           d = take (length (X @ ''query['' @ A @ '']'' @ B @ ''from'' @ W) - 6) line \<and>
           st' = st\<lparr>last_query_ip := Some a\<rparr>"
proof (cases "re_search line")
  case None
  from assms show ?thesis unfolding parse_no_query [OF None] by (simp split: if_splits)
next
  case (Some r)
  obtain s1 e1 where r: "r = (s1, e1)" by (cases r)
  from re_search_sound [OF Some [unfolded r]] obtain X A B W D E where
    l: "line = X @ ''query['' @ A @ '']'' @ B @ ''from'' @ W @ D @ E" and
    c: "list_all dot A" "list_all dot B" "W \<noteq> []" "list_all isspace W"
       "D \<noteq> []" "list_all digit_or_dot D" "E = [] \<or> E = [newline]" by blast
  define Q where "Q = X @ ''query['' @ A @ '']'' @ B @ ''from'' @ W"
  have l': "line = Q @ D @ E" by (simp add: l Q_def)
  have "parse_log_line st line =
      (Some (take (length Q - 6) line, D, False), st\<lparr>last_query_ip := Some D\<rparr>)"
    using parse_query_shape [OF c Q_def, of st] by (simp add: l')
  then have f: "fst (parse_log_line st line) = Some (take (length Q - 6) line, D, False)"
    and g: "snd (parse_log_line st line) = st\<lparr>last_query_ip := Some D\<rparr>"
    by simp_all
  from f assms have da: "d = take (length Q - 6) line" "D = a" by simp_all
  from g assms have "st' = st\<lparr>last_query_ip := Some D\<rparr>" by simp
  with da have "d = take (length Q - 6) line \<and> D = a \<and> st' = st\<lparr>last_query_ip := Some a\<rparr>"
    by blast
  with l c show ?thesis unfolding Q_def by blast
qed

lemmas class_defs = dot_def newline_def isspace_def digit_or_dot_def isdecimal_def

lemmas search_defs = re_search_def query_re_def lit_def class_defs

lemmas parse_defs = parse_log_line_def slice_def slice_to_def py_index_def Let_def

lemma parse_log_lines_no_query:
  "\<forall>l\<in>set ls. re_search l = None \<Longrightarrow> snd (parse_log_lines st ls) = st"
proof (induction ls)
  case Nil
  then show ?case by simp
next
  case (Cons l ls)
  then have n: "re_search l = None" and r: "snd (parse_log_lines st ls) = st" by simp_all
  from parse_no_query [OF n, of st] obtain ev where p: "parse_log_line st l = (ev, st)" by simp
  from r obtain evs where "parse_log_lines st ls = (evs, st)"
    by (cases "parse_log_lines st ls") simp
  with p show ?case by simp
qed

lemma query_sets_last_ip:
  assumes "parse_log_line st0 q = (Some (d, a, False), st1)"
  shows "last_query_ip st1 = Some a \<and> a \<noteq> []"
  using query_event_shape [OF assms] by auto

section \<open>Query lines\<close>

text \<open>
  Claim C1. Every line that consists of any prefix, the marker \<open>query[\<close>, characters
  without a newline up to a \<open>]\<close>, further characters without a newline, the word
  \<open>from\<close>, at least one whitespace character and, up to the end of the line, a non-empty
  address token of digits and dots is classified as a query: \<open>parse_log_line\<close> returns an
  unblocked event whose address is that trailing token, with the line less the token and
  the six characters before it as its description, and stores the token as the
  streamer's \<open>last_query_ip\<close>.
\<close>

theorem query_line_classified:
  assumes "line = X @ ''query['' @ A @ '']'' @ B @ ''from'' @ W @ addr"
    and "list_all dot A" and "list_all dot B"
    and "W \<noteq> []" and "list_all isspace W"
    and "addr \<noteq> []" and "list_all digit_or_dot addr"
  shows "parse_log_line st line =
           (Some (take (length line - length addr - 6) line, addr, False),
            st\<lparr>last_query_ip := Some addr\<rparr>)"
proof -
  define Q where "Q = X @ ''query['' @ A @ '']'' @ B @ ''from'' @ W"
  have l: "line = Q @ addr @ []" by (simp add: assms(1) Q_def)
  have "parse_log_line st (Q @ addr @ []) =
         (Some (take (length Q - 6) (Q @ addr @ []), addr, False), st\<lparr>last_query_ip := Some addr\<rparr>)"
    by (rule parse_query_shape [OF assms(2-7) _ Q_def]) simp
  then show ?thesis by (simp add: l)
qed

theorem query_line_classified_witness:
  "parse_log_line (connected ''pihole1'' ''pi'' CYAN) scenario_query =
     (Some (''Oct  4 14:18:46: query[A] example.com'', ''192.168.1.100'', False),
      (connected ''pihole1'' ''pi'' CYAN)\<lparr>last_query_ip := Some ''192.168.1.100''\<rparr>)"
  using query_line_classified [of scenario_query "''Oct  4 14:18:46: ''" "''A''" "'' example.com ''"
      "'' ''" "''192.168.1.100''" "connected ''pihole1'' ''pi'' CYAN"]
  by (simp add: scenario_query_def dot_def newline_def isspace_def digit_or_dot_def isdecimal_def)

section \<open>Block and deny lines\<close>

text \<open>
  \<open>parse_log_line\<close> tests the query pattern first and returns as soon as it matches; the
  three phrases are looked for only in a line that the query pattern does not match. A
  line can both match the query pattern and hold a phrase: it is a query line.
\<close>

text \<open>
  Claim C2, as amended. Let a line be classified as a query with address \<open>a\<close>, then any
  number of lines that do not match the query pattern, then a line that holds one of the
  phrases \<open>gravity blocked\<close>, \<open>exactly blocked\<close>, \<open>exactly denied\<close> in any letter case and
  does not match the query pattern. Then that last line is classified as a blocked event
  with the whole line as description and \<open>a\<close> as address, and the streamer is the one the
  query left.
\<close>

theorem block_line_uses_last_query:
  assumes "parse_log_line st0 q = (Some (d, a, False), st1)"
    and "\<forall>l\<in>set mid. re_search l = None"
    and "block_phrase line" and "re_search line = None"
  shows "parse_log_line (snd (parse_log_lines st1 mid)) line = (Some (line, a, True), st1)"
proof -
  from query_sets_last_ip [OF assms(1)] have "last_query_ip st1 = Some a" "a \<noteq> []" by simp_all
  moreover from parse_log_lines_no_query [OF assms(2)] have "snd (parse_log_lines st1 mid) = st1" .
  ultimately show ?thesis by (simp add: parse_no_query [OF assms(4)] assms(3) truthy_def)
qed

theorem block_line_uses_last_query_witness:
  "parse_log_line
     (snd (parse_log_lines
        (snd (parse_log_line (connected ''pihole1'' ''pi'' CYAN) scenario_query))
        [''Oct  4 14:18:46: forwarded example.com to 8.8.8.8'',
         ''Oct  4 14:18:46: reply example.com is 93.184.216.34'']))
     scenario_block =
   (Some (scenario_block, ''192.168.1.100'', True),
    (connected ''pihole1'' ''pi'' CYAN)\<lparr>last_query_ip := Some ''192.168.1.100''\<rparr>)"
proof -
  have q: "parse_log_line (connected ''pihole1'' ''pi'' CYAN) scenario_query =
      (Some (''Oct  4 14:18:46: query[A] example.com'', ''192.168.1.100'', False),
       (connected ''pihole1'' ''pi'' CYAN)\<lparr>last_query_ip := Some ''192.168.1.100''\<rparr>)"
    by (simp add: parse_defs search_defs scenario_query_def)
  have m: "\<forall>l\<in>set [''Oct  4 14:18:46: forwarded example.com to 8.8.8.8'',
         ''Oct  4 14:18:46: reply example.com is 93.184.216.34'']. re_search l = None"
    by (simp add: search_defs)
  have b: "block_phrase scenario_block" by code_simp
  have n: "re_search scenario_block = None" by (simp add: search_defs scenario_block_def)
  from block_line_uses_last_query [OF q m b n] show ?thesis by (simp add: q)
qed

text \<open>
  Claim C2 as stated fails: a line that holds a phrase and also matches the query
  pattern, classified after a query from 10.0.0.1, is not a blocked event for 10.0.0.1
  but a query event with its own address.
\<close>

theorem block_phrase_query_line_counterexample:
  "block_phrase ''query[A] gravity blocked from 10.0.0.2'' \<and>
   last_query_ip (snd (parse_log_line (connected ''pihole1'' ''pi'' CYAN)
     ''query[A] example.com from 10.0.0.1'')) = Some ''10.0.0.1'' \<and>
   fst (parse_log_line
     (snd (parse_log_line (connected ''pihole1'' ''pi'' CYAN) ''query[A] example.com from 10.0.0.1''))
     ''query[A] gravity blocked from 10.0.0.2'') =
   Some (''query[A] gravity blocked'', ''10.0.0.2'', False)"
proof -
  have "block_phrase ''query[A] gravity blocked from 10.0.0.2''" by code_simp
  then show ?thesis by (simp add: parse_defs search_defs)
qed

text \<open>
  Claim C3, as amended. On a streamer whose \<open>last_query_ip\<close> is unset, every line that
  holds one of the phrases and does not match the query pattern yields no event and
  leaves the streamer as it was; so does any sequence of such lines.
  \<open>parse_log_line\<close> has no failing branch: it returns a result for every line.
\<close>

theorem orphan_block_lines_dropped:
  assumes "last_query_ip st = None"
    and "\<forall>l\<in>set ls. block_phrase l \<and> re_search l = None"
  shows "(\<forall>l\<in>set ls. parse_log_line st l = (None, st)) \<and>
         parse_log_lines st ls = (replicate (length ls) None, st)"
proof -
  have one: "parse_log_line st l = (None, st)" if "l \<in> set ls" for l
    using that assms by (simp add: parse_no_query truthy_def)
  from assms(2) have "parse_log_lines st ls = (replicate (length ls) None, st)"
  proof (induction ls)
    case Nil
    then show ?case by simp
  next
    case (Cons l ls)
    then have "re_search l = None" and "parse_log_lines st ls = (replicate (length ls) None, st)"
      by simp_all
    with assms(1) show ?case by (simp add: parse_no_query truthy_def)
  qed
  with one show ?thesis by blast
qed

theorem orphan_block_lines_dropped_witness:
  "parse_log_line (connected ''pihole1'' ''pi'' CYAN) scenario_block =
     (None, connected ''pihole1'' ''pi'' CYAN) \<and>
   parse_log_lines (connected ''pihole1'' ''pi'' CYAN)
     [scenario_block, ''exactly denied tracker.example.net is NXDOMAIN'', scenario_block] =
     ([None, None, None], connected ''pihole1'' ''pi'' CYAN)"
proof -
  have u: "last_query_ip (connected ''pihole1'' ''pi'' CYAN) = None"
    by (simp add: connected_def init_def)
  have b: "block_phrase scenario_block"
    "block_phrase ''exactly denied tracker.example.net is NXDOMAIN''" by code_simp+
  have n: "re_search scenario_block = None"
    "re_search ''exactly denied tracker.example.net is NXDOMAIN'' = None"
    by (simp_all add: search_defs scenario_block_def)
  have "\<forall>l\<in>set [scenario_block, ''exactly denied tracker.example.net is NXDOMAIN'', scenario_block].
      block_phrase l \<and> re_search l = None"
    using b n by simp
  from orphan_block_lines_dropped [OF u this] show ?thesis by simp
qed

text \<open>
  Claim C3 as stated fails: on a new streamer, a line that holds a phrase and also
  matches the query pattern yields a query event and sets \<open>last_query_ip\<close>.
\<close>

theorem orphan_block_query_line_counterexample:
  "block_phrase ''exactly denied query[AAAA] tracker.example.net from 10.0.0.7'' \<and>
   last_query_ip (connected ''pihole1'' ''pi'' CYAN) = None \<and>
   parse_log_line (connected ''pihole1'' ''pi'' CYAN)
     ''exactly denied query[AAAA] tracker.example.net from 10.0.0.7'' =
   (Some (''exactly denied query[AAAA] tracker.example.net'', ''10.0.0.7'', False),
    (connected ''pihole1'' ''pi'' CYAN)\<lparr>last_query_ip := Some ''10.0.0.7''\<rparr>)"
proof -
  have "block_phrase ''exactly denied query[AAAA] tracker.example.net from 10.0.0.7''" by code_simp
  then show ?thesis by (simp add: parse_defs search_defs connected_def init_def)
qed

text \<open>
  Claim C10, as amended. A line that holds one of the phrases and does not match the
  query pattern leaves every streamer unchanged, whatever it returns; hence, in a run of
  such lines after a query with address \<open>a\<close>, every line is a blocked event with
  address \<open>a\<close> and the streamer stays the one the query left.
\<close>

theorem block_run_keeps_query_address:
  assumes "parse_log_line st0 q = (Some (d, a, False), st1)"
    and "\<forall>l\<in>set bs. block_phrase l \<and> re_search l = None"
  shows "(\<forall>l\<in>set bs. \<forall>st. snd (parse_log_line st l) = st) \<and>
         parse_log_lines st1 bs = (map (\<lambda>l. Some (l, a, True)) bs, st1)"
proof -
  from query_sets_last_ip [OF assms(1)] have ip: "last_query_ip st1 = Some a" "a \<noteq> []"
    by simp_all
  have keep: "\<forall>l\<in>set bs. \<forall>st. snd (parse_log_line st l) = st"
    using assms(2) by (simp add: parse_no_query)
  from assms(2) have "parse_log_lines st1 bs = (map (\<lambda>l. Some (l, a, True)) bs, st1)"
  proof (induction bs)
    case Nil
    then show ?case by simp
  next
    case (Cons l bs)
    then have "re_search l = None" "block_phrase l"
      and "parse_log_lines st1 bs = (map (\<lambda>l. Some (l, a, True)) bs, st1)" by simp_all
    with ip show ?case by (simp add: parse_no_query truthy_def)
  qed
  with keep show ?thesis by blast
qed

theorem block_run_keeps_query_address_witness:
  "parse_log_lines
     (snd (parse_log_line (connected ''pihole1'' ''pi'' CYAN) scenario_query))
     [scenario_block, ''Oct  4 14:18:47: exactly blocked ads.example.com is 0.0.0.0''] =
   ([Some (scenario_block, ''192.168.1.100'', True),
     Some (''Oct  4 14:18:47: exactly blocked ads.example.com is 0.0.0.0'', ''192.168.1.100'', True)],
    (connected ''pihole1'' ''pi'' CYAN)\<lparr>last_query_ip := Some ''192.168.1.100''\<rparr>)"
proof -
  have q: "parse_log_line (connected ''pihole1'' ''pi'' CYAN) scenario_query =
      (Some (''Oct  4 14:18:46: query[A] example.com'', ''192.168.1.100'', False),
       (connected ''pihole1'' ''pi'' CYAN)\<lparr>last_query_ip := Some ''192.168.1.100''\<rparr>)"
    by (simp add: parse_defs search_defs scenario_query_def)
  have b: "block_phrase scenario_block"
    "block_phrase ''Oct  4 14:18:47: exactly blocked ads.example.com is 0.0.0.0''" by code_simp+
  have n: "re_search scenario_block = None"
    "re_search ''Oct  4 14:18:47: exactly blocked ads.example.com is 0.0.0.0'' = None"
    by (simp_all add: search_defs scenario_block_def)
  have "\<forall>l\<in>set [scenario_block, ''Oct  4 14:18:47: exactly blocked ads.example.com is 0.0.0.0''].
      block_phrase l \<and> re_search l = None"
    using b n by simp
  from block_run_keeps_query_address [OF q this] show ?thesis by (simp add: q)
qed

text \<open>
  Claim C10 as stated fails: a line that holds a phrase and also matches the query
  pattern replaces the address 10.0.0.1 remembered before it.
\<close>

theorem block_phrase_line_updates_counterexample:
  "block_phrase ''exactly blocked query[A] ads.example.com from 10.0.0.3'' \<and>
   last_query_ip (snd (parse_log_line
     ((connected ''pihole1'' ''pi'' CYAN)\<lparr>last_query_ip := Some ''10.0.0.1''\<rparr>)
     ''exactly blocked query[A] ads.example.com from 10.0.0.3'')) = Some ''10.0.0.3''"
proof -
  have "block_phrase ''exactly blocked query[A] ads.example.com from 10.0.0.3''" by code_simp
  then show ?thesis by (simp add: parse_defs search_defs)
qed

section \<open>The address token\<close>

text \<open>
  Claim C9, as amended. \<open>parse_log_line\<close> returns a query event with address \<open>a\<close> only
  for a line in which \<open>query[\<close>, a \<open>]\<close> and the word \<open>from\<close> occur in this order with no
  newline between them, followed by at least one whitespace character and then \<open>a\<close>,
  where \<open>a\<close> is a non-empty run of decimal digits and dots that ends the line (or stands
  just before a newline that ends it). Nothing more is asked of the token: it need not be
  a dotted-decimal address.
\<close>

theorem query_only_with_trailing_token:
  assumes "parse_log_line st line = (Some (d, a, False), st')"
  shows "\<exists>X A B W E. line = X @ ''query['' @ A @ '']'' @ B @ ''from'' @ W @ a @ E \<and>
           list_all dot A \<and> list_all dot B \<and> W \<noteq> [] \<and> list_all isspace W \<and>
           a \<noteq> [] \<and> list_all digit_or_dot a \<and> (E = [] \<or> E = [newline])"
  using query_event_shape [OF assms] by blast

theorem query_only_with_trailing_token_witness:
  "\<exists>X A B W E. ''query[A] x from 1..2'' = X @ ''query['' @ A @ '']'' @ B @ ''from'' @ W @ ''1..2'' @ E \<and>
           list_all dot A \<and> list_all dot B \<and> W \<noteq> [] \<and> list_all isspace W \<and>
           ''1..2'' \<noteq> [] \<and> list_all digit_or_dot ''1..2'' \<and> (E = [] \<or> E = [newline])"
proof -
  have "parse_log_line (connected ''pihole1'' ''pi'' CYAN) ''query[A] x from 1..2'' =
      (Some (''query[A] x'', ''1..2'', False),
       (connected ''pihole1'' ''pi'' CYAN)\<lparr>last_query_ip := Some ''1..2''\<rparr>)"
    by (simp add: parse_defs search_defs)
  from query_only_with_trailing_token [OF this] show ?thesis .
qed

text \<open>
  Claim C9 as stated fails: the trailing token \<open>1..2\<close> is not a dotted-decimal
  address, and the line is classified as a query with that address.
\<close>

theorem malformed_token_counterexample:
  "fst (parse_log_line (connected ''pihole1'' ''pi'' CYAN) ''query[A] x from 1..2'') =
     Some (''query[A] x'', ''1..2'', False) \<and>
   \<not> spec_dotted_decimal ''1..2''"
  by (simp add: parse_defs search_defs spec_dotted_decimal_def)

section \<open>The resolver and the stream\<close>


lemma py_in_sublist: "py_in w s = sublist w s"
  by (induction s) (simp_all add: sublist_Cons_right)

lemma resolve_hit:
  "dns_cache st ip = Some h \<Longrightarrow> resolve_hostname d st calls ip = (Inr h, st, calls)"
  by (simp add: resolve_hostname_def)

lemma resolve_miss:
  "dns_cache st ip = None \<Longrightarrow>
   resolve_hostname d st calls ip =
     (case d ip of
        Inr h \<Rightarrow> (Inr h, st\<lparr>dns_cache := (dns_cache st)(ip \<mapsto> h)\<rparr>, calls @ [ip])
      | Inl e \<Rightarrow>
          if e = Herror \<or> e = Gaierror
          then (Inr ip, st\<lparr>dns_cache := (dns_cache st)(ip \<mapsto> ip)\<rparr>, calls @ [ip])
          else (Inl e, st, calls @ [ip]))"
  by (simp add: resolve_hostname_def gethostbyaddr_def split: sum.splits)

lemma resolve_returns_cached:
  assumes "resolve_hostname d st calls ip = (Inr h, st1, calls1)"
  shows "dns_cache st1 ip = Some h \<and> (calls1 = calls \<or> calls1 = calls @ [ip])"
proof (cases "dns_cache st ip")
  case None
  from assms show ?thesis unfolding resolve_miss [OF None]
    by (auto split: sum.splits if_splits)
next
  case (Some h')
  from assms show ?thesis unfolding resolve_hit [OF Some] using Some by auto
qed

lemma resolve_inv:
  assumes "distinct calls" and "set calls \<subseteq> dom (dns_cache st)"
    and "resolve_hostname d st calls ip = (r, st', calls')"
  shows "distinct calls' \<and> ((\<exists>h. r = Inr h) \<longrightarrow> set calls' \<subseteq> dom (dns_cache st'))"
proof (cases "dns_cache st ip")
  case None
  with assms(2) have "ip \<notin> set calls" by auto
  with assms show ?thesis unfolding resolve_miss [OF None]
    by (auto split: sum.splits if_splits)
next
  case (Some h')
  from assms show ?thesis unfolding resolve_hit [OF Some] by auto
qed

lemma parse_keeps_cache:
  "parse_log_line st line = (ev, st1) \<Longrightarrow> dns_cache st1 = dns_cache st"
  by (auto simp: parse_log_line_def Let_def split: option.splits if_splits)

lemma body_inv:
  assumes "distinct calls" and "set calls \<subseteq> dom (dns_cache st)"
    and "stream_logs_body d b f v ts raw st calls q = (e, st', calls', q')"
  shows "distinct calls' \<and> (e = None \<longrightarrow> set calls' \<subseteq> dom (dns_cache st'))"
proof (cases "py_strip raw = []")
  case True
  with assms show ?thesis by (simp add: stream_logs_body_def)
next
  case False
  obtain ev st1 where p: "parse_log_line st (py_strip raw) = (ev, st1)"
    by (cases "parse_log_line st (py_strip raw)")
  from parse_keeps_cache [OF p] assms(2) have sub: "set calls \<subseteq> dom (dns_cache st1)" by simp
  show ?thesis
  proof (cases ev)
    case None
    with assms(1,3) sub p False show ?thesis
      by (auto simp: stream_logs_body_def split: if_splits)
  next
    case (Some t)
    obtain qp ip blk where t: "t = (qp, ip, blk)" by (cases t)
    obtain r st2 calls2 where r: "resolve_hostname d st1 calls ip = (r, st2, calls2)"
      by (cases "resolve_hostname d st1 calls ip")
    from resolve_inv [OF assms(1) sub r] have
      i: "distinct calls2" "(\<exists>h. r = Inr h) \<longrightarrow> set calls2 \<subseteq> dom (dns_cache st2)" by simp_all
    show ?thesis
    proof (cases "b \<and> \<not> blk")
      case True
      with assms(1,3) sub p False Some t show ?thesis by (simp add: stream_logs_body_def)
    next
      case nb: False
      show ?thesis
      proof (cases r)
        case (Inl x)
        with assms(3) p False Some t r nb i show ?thesis
          by (auto simp: stream_logs_body_def)
      next
        case (Inr h)
        with assms(3) p False Some t r nb i show ?thesis
          by (auto simp: stream_logs_body_def split: if_splits)
      qed
    qed
  qed
qed

lemma loop_inv:
  "distinct calls \<Longrightarrow> set calls \<subseteq> dom (dns_cache st) \<Longrightarrow>
   stream_logs_loop d b f v stdout st calls q = (e, st', calls', q') \<Longrightarrow> distinct calls'"
proof (induction stdout arbitrary: st calls q)
  case Nil
  then show ?case by simp
next
  case (Cons x stdout)
  obtain ts raw where x: "x = (ts, raw)" by (cases x)
  show ?case
  proof (cases "raw = []")
    case True
    with Cons.prems x show ?thesis by simp
  next
    case False
    obtain e1 st1 calls1 q1 where
      bd: "stream_logs_body d b f v ts raw st calls q = (e1, st1, calls1, q1)"
      by (cases "stream_logs_body d b f v ts raw st calls q") auto
    from body_inv [OF Cons.prems(1,2) bd] have
      i: "distinct calls1" "e1 = None \<longrightarrow> set calls1 \<subseteq> dom (dns_cache st1)" by simp_all
    show ?thesis
    proof (cases e1)
      case None
      with Cons.prems(3) x False bd have
        "stream_logs_loop d b f v stdout st1 calls1 q1 = (e, st', calls', q')" by simp
      from Cons.IH [OF i(1) _ this] i(2) None show ?thesis by simp
    next
      case (Some ex)
      with Cons.prems(3) x False bd i show ?thesis by simp
    qed
  qed
qed

text \<open>
  Claim C6, as amended. For an address that is already in the cache, or whose external
  lookup either gives a name or fails with \<open>socket.herror\<close> or \<open>socket.gaierror\<close>,
  \<open>resolve_hostname\<close> returns a value and invokes the lookup at most once; a second call
  for that address on the streamer it left returns the same value, whatever the external
  lookup would answer now, and leaves the streamer and the log of external lookups as
  they were: the lookup is not invoked again. Over a whole run of \<open>stream_logs\<close> on a
  new streamer no address is looked up twice, since an exception that is not caught ends
  the run.
\<close>

theorem resolve_cached:
  assumes "dns_cache st ip \<noteq> None \<or> (\<forall>e. d ip = Inl e \<longrightarrow> e = Herror \<or> e = Gaierror)"
  shows "(\<exists>h st1 calls1.
            resolve_hostname d st calls ip = (Inr h, st1, calls1) \<and>
            (calls1 = calls \<or> calls1 = calls @ [ip]) \<and>
            (\<forall>d2. resolve_hostname d2 st1 calls1 ip = (Inr h, st1, calls1))) \<and>
         (\<forall>b f v stdout hn u col q.
            distinct (fst (snd (snd (stream_logs d b f v stdout (connected hn u col) [] q)))))"
proof -
  have ret: "\<exists>h st1 calls1. resolve_hostname d st calls ip = (Inr h, st1, calls1)"
  proof (cases "dns_cache st ip")
    case None
    with assms have "\<forall>e. d ip = Inl e \<longrightarrow> e = Herror \<or> e = Gaierror" by simp
    then show ?thesis unfolding resolve_miss [OF None] by (cases "d ip") auto
  next
    case (Some h)
    then show ?thesis by (simp add: resolve_hit)
  qed
  then obtain h st1 calls1 where
    r: "resolve_hostname d st calls ip = (Inr h, st1, calls1)" by blast
  from resolve_returns_cached [OF r] have
    c: "dns_cache st1 ip = Some h" and l: "calls1 = calls \<or> calls1 = calls @ [ip]" by simp_all
  have again: "\<forall>d2. resolve_hostname d2 st1 calls1 ip = (Inr h, st1, calls1)"
    using resolve_hit [OF c] by simp
  have run: "distinct (fst (snd (snd (stream_logs d b f v stdout (connected hn u col) [] q))))"
    for b f v stdout hn u col q
  proof -
    obtain e st' calls' q' where
      s: "stream_logs_loop d b f v stdout (connected hn u col) [] q = (e, st', calls', q')"
      by (cases "stream_logs_loop d b f v stdout (connected hn u col) [] q") auto
    have "distinct calls'" by (rule loop_inv [OF _ _ s]) simp_all
    with s show ?thesis by (simp add: stream_logs_def connected_def init_def)
  qed
  from r l again run show ?thesis by blast
qed

theorem resolve_cached_witness:
  "resolve_hostname (\<lambda>ip. Inl Other_exception)
     ((connected ''pihole1'' ''pi'' CYAN)\<lparr>dns_cache := [''192.168.1.100'' \<mapsto> ''laptop.local'']\<rparr>)
     [''192.168.1.100''] ''192.168.1.100'' =
   (Inr ''laptop.local'',
    (connected ''pihole1'' ''pi'' CYAN)\<lparr>dns_cache := [''192.168.1.100'' \<mapsto> ''laptop.local'']\<rparr>,
    [''192.168.1.100''])"
proof -
  let ?st = "connected ''pihole1'' ''pi'' CYAN"
  let ?ip = "''192.168.1.100''"
  have hyp: "dns_cache ?st ?ip \<noteq> None \<or>
      (\<forall>e. scenario_dns ?ip = Inl e \<longrightarrow> e = Herror \<or> e = Gaierror)"
    by (simp add: scenario_dns_def)
  have first: "resolve_hostname scenario_dns ?st [] ?ip =
      (Inr ''laptop.local'', ?st\<lparr>dns_cache := [?ip \<mapsto> ''laptop.local'']\<rparr>, [?ip])"
    by (simp add: resolve_hostname_def gethostbyaddr_def scenario_dns_def connected_def init_def)
  from resolve_cached [where st = ?st and ip = ?ip and d = scenario_dns and calls = "[]"] hyp
  obtain h st1 calls1 where
    "resolve_hostname scenario_dns ?st [] ?ip = (Inr h, st1, calls1)"
    "\<forall>d2. resolve_hostname d2 st1 calls1 ?ip = (Inr h, st1, calls1)" by blast
  with first show ?thesis by simp
qed

text \<open>
  Claim C6 as stated fails: when the lookup raises an exception of another class, the
  first call returns no value and caches nothing, and a second call for the same address
  invokes the lookup again; the log then holds the address twice.
\<close>

theorem uncached_failure_counterexample:
  "resolve_hostname (\<lambda>ip. Inl Other_exception) (connected ''pihole1'' ''pi'' CYAN)
     [] ''1..2'' =
     (Inl Other_exception, connected ''pihole1'' ''pi'' CYAN, [''1..2'']) \<and>
   resolve_hostname (\<lambda>ip. Inl Other_exception) (connected ''pihole1'' ''pi'' CYAN)
     [''1..2''] ''1..2'' =
     (Inl Other_exception, connected ''pihole1'' ''pi'' CYAN, [''1..2'', ''1..2''])"
  by (simp add: resolve_hostname_def gethostbyaddr_def connected_def init_def)

text \<open>
  Claim C7, as amended. On a cache miss, when the external lookup raises
  \<open>socket.herror\<close> or \<open>socket.gaierror\<close>, \<open>resolve_hostname\<close> caches the address as its own
  name and returns the address; when it raises anything else, the exception leaves
  \<open>resolve_hostname\<close> and the cache is not written.
\<close>

theorem lookup_failure_cached:
  assumes "dns_cache st ip = None" and "d ip = Inl e"
  shows "resolve_hostname d st calls ip =
           (if e = Herror \<or> e = Gaierror
            then (Inr ip, st\<lparr>dns_cache := (dns_cache st)(ip \<mapsto> ip)\<rparr>, calls @ [ip])
            else (Inl e, st, calls @ [ip]))"
  using assms by (simp add: resolve_miss)

theorem lookup_failure_cached_witness:
  "resolve_hostname scenario_dns (connected ''pihole1'' ''pi'' CYAN) [] ''10.0.0.5'' =
     (Inr ''10.0.0.5'',
      (connected ''pihole1'' ''pi'' CYAN)\<lparr>dns_cache := [''10.0.0.5'' \<mapsto> ''10.0.0.5'']\<rparr>,
      [''10.0.0.5''])"
proof -
  have c: "dns_cache (connected ''pihole1'' ''pi'' CYAN) ''10.0.0.5'' = None"
    by (simp add: connected_def init_def)
  have f: "scenario_dns ''10.0.0.5'' = Inl Herror" by (simp add: scenario_dns_def)
  from lookup_failure_cached
    [where st = "connected ''pihole1'' ''pi'' CYAN" and ip = "''10.0.0.5''" and d = scenario_dns
       and e = Herror and calls = "[]"] c f
  show ?thesis by (simp add: connected_def init_def)
qed

text \<open>
  Claim C7 as stated fails: a lookup that fails with an exception of another class (for
  the address \<open>1..2\<close> Python's \<open>socket.gethostbyaddr\<close> raises \<open>UnicodeError\<close> while
  encoding the empty label) is not caught, and nothing is cached.
\<close>

theorem other_exception_counterexample:
  "resolve_hostname (\<lambda>ip. Inl Other_exception) (connected ''pihole1'' ''pi'' CYAN) [] ''1..2'' =
     (Inl Other_exception, connected ''pihole1'' ''pi'' CYAN, [''1..2''])"
  by (simp add: resolve_hostname_def gethostbyaddr_def connected_def init_def)

section \<open>Filters and the end-to-end scenario\<close>


lemma strip_scenario:
  "py_strip scenario_query = scenario_query" "py_strip scenario_block = scenario_block"
  by (simp_all add: py_strip_def scenario_query_def scenario_block_def isspace_def)

lemma scenario_query_parse:
  "parse_log_line st scenario_query =
     (Some (''Oct  4 14:18:46: query[A] example.com'', ''192.168.1.100'', False),
      st\<lparr>last_query_ip := Some ''192.168.1.100''\<rparr>)"
  by (simp add: parse_defs search_defs scenario_query_def)

lemma scenario_block_phrase: "block_phrase scenario_block"
  by code_simp

lemma scenario_block_parse:
  "last_query_ip st = Some ''192.168.1.100'' \<Longrightarrow>
   parse_log_line st scenario_block = (Some (scenario_block, ''192.168.1.100'', True), st)"
proof -
  have "re_search scenario_block = None" by (simp add: search_defs scenario_block_def)
  then show "last_query_ip st = Some ''192.168.1.100'' \<Longrightarrow> ?thesis"
    by (simp add: parse_no_query scenario_block_phrase truthy_def)
qed

lemma scenario_nonempty: "scenario_query \<noteq> []" "scenario_block \<noteq> []"
  by (simp_all add: scenario_query_def scenario_block_def)

lemma scenario_label: "host_display ''laptop.local'' ''192.168.1.100'' = ''laptop.local (192.168.1.100)''"
  by (simp add: host_display_def)

lemma formatted_same_streamer:
  "formatted_blocked (st\<lparr>dns_cache := c, last_query_ip := l\<rparr>) = formatted_blocked st"
  "formatted_query (st\<lparr>dns_cache := c, last_query_ip := l\<rparr>) = formatted_query st"
  "formatted_query (st\<lparr>last_query_ip := l, dns_cache := c\<rparr>) = formatted_query st"
  "formatted_blocked (st\<lparr>last_query_ip := l, dns_cache := c\<rparr>) = formatted_blocked st"
  by (simp_all add: formatted_blocked_def formatted_query_def fun_eq_iff)

text \<open>
  Claim C8. With a host filter \<open>f\<close> given, a line that is classified as an event (and is
  not a query suppressed by the blocked-only switch) and whose address resolves to the
  name \<open>h\<close> puts exactly one formatted event on the queue if the lower-cased \<open>f\<close> is a
  substring of the lower-cased \<open>h\<close> or \<open>f\<close> equals the raw address, and puts nothing on
  the queue otherwise.
\<close>

theorem host_filter_keeps:
  assumes "py_strip raw \<noteq> []"
    and "parse_log_line st (py_strip raw) = (Some (query_part, ip, is_blocked), st1)"
    and "\<not> (b \<and> \<not> is_blocked)"
    and "resolve_hostname d st1 calls ip = (Inr h, st2, calls2)"
  shows "stream_logs_body d b (Some f) v timestamp raw st calls queue =
           (None, st2, calls2,
            if sublist (py_lower f) (py_lower h) \<or> f = ip
            then queue @ [if is_blocked
                          then formatted_blocked st2 timestamp (host_display h ip) query_part
                          else formatted_query st2 timestamp (host_display h ip) query_part]
            else queue)"
proof -
  have "host_filtered_out (Some f) h ip = (\<not> (sublist (py_lower f) (py_lower h) \<or> f = ip))"
  proof (cases "f = []")
    case True
    then show ?thesis by (simp add: host_filtered_out_def py_lower_def)
  next
    case False
    then show ?thesis by (simp add: host_filtered_out_def py_in_sublist)
  qed
  with assms show ?thesis by (auto simp: stream_logs_body_def)
qed

theorem host_filter_keeps_witness:
  "stream_logs_body (\<lambda>ip. if ip = ''10.0.0.5'' then Inr ''printer.local'' else Inl Herror)
     False (Some ''printer'') False ''12:00:00'' ''query[A] example.com from 10.0.0.5''
     (connected ''pihole1'' ''pi'' CYAN) [] [] =
   (None,
    (connected ''pihole1'' ''pi'' CYAN)
      \<lparr>dns_cache := [''10.0.0.5'' \<mapsto> ''printer.local''], last_query_ip := Some ''10.0.0.5''\<rparr>,
    [''10.0.0.5''],
    [formatted_query (connected ''pihole1'' ''pi'' CYAN) ''12:00:00''
       ''printer.local (10.0.0.5)'' ''query[A] example.com'']) \<and>
   stream_logs_body (\<lambda>ip. if ip = ''10.0.0.5'' then Inr ''laptop.local'' else Inl Herror)
     False (Some ''printer'') False ''12:00:00'' ''query[A] example.com from 10.0.0.5''
     (connected ''pihole1'' ''pi'' CYAN) [] [] =
   (None,
    (connected ''pihole1'' ''pi'' CYAN)
      \<lparr>dns_cache := [''10.0.0.5'' \<mapsto> ''laptop.local''], last_query_ip := Some ''10.0.0.5''\<rparr>,
    [''10.0.0.5''], [])"
proof -
  let ?st = "connected ''pihole1'' ''pi'' CYAN"
  let ?raw = "''query[A] example.com from 10.0.0.5''"
  let ?p = "\<lambda>ip. if ip = ''10.0.0.5'' then Inr ''printer.local'' else Inl Herror"
  let ?l = "\<lambda>ip. if ip = ''10.0.0.5'' then Inr ''laptop.local'' else Inl Herror"
  have s: "py_strip ?raw = ?raw" by (simp add: py_strip_def isspace_def)
  have n: "py_strip ?raw \<noteq> []" by (simp add: s)
  have q: "parse_log_line ?st (py_strip ?raw) =
      (Some (''query[A] example.com'', ''10.0.0.5'', False), ?st\<lparr>last_query_ip := Some ''10.0.0.5''\<rparr>)"
    unfolding s by (simp add: parse_defs search_defs)
  have b: "\<not> (False \<and> \<not> False)" by simp
  have r1: "resolve_hostname ?p (?st\<lparr>last_query_ip := Some ''10.0.0.5''\<rparr>) [] ''10.0.0.5'' =
      (Inr ''printer.local'',
       ?st\<lparr>dns_cache := [''10.0.0.5'' \<mapsto> ''printer.local''], last_query_ip := Some ''10.0.0.5''\<rparr>,
       [''10.0.0.5''])"
    by (simp add: resolve_hostname_def gethostbyaddr_def connected_def init_def)
  have r2: "resolve_hostname ?l (?st\<lparr>last_query_ip := Some ''10.0.0.5''\<rparr>) [] ''10.0.0.5'' =
      (Inr ''laptop.local'',
       ?st\<lparr>dns_cache := [''10.0.0.5'' \<mapsto> ''laptop.local''], last_query_ip := Some ''10.0.0.5''\<rparr>,
       [''10.0.0.5''])"
    by (simp add: resolve_hostname_def gethostbyaddr_def connected_def init_def)
  have k1: "sublist (py_lower ''printer'') (py_lower ''printer.local'')" by code_simp
  have k2: "\<not> (sublist (py_lower ''printer'') (py_lower ''laptop.local'') \<or> ''printer'' = ''10.0.0.5'')"
    by code_simp
  from host_filter_keeps [OF n q b r1, of "''printer''" False "''12:00:00''" "[]"]
       host_filter_keeps [OF n q b r2, of "''printer''" False "''12:00:00''" "[]"] k1 k2
  show ?thesis by (simp add: host_display_def formatted_same_streamer)
qed

text \<open>
  Claim C4. In blocked-only mode the two lines of the scenario put exactly one event on
  the queue, the blocked one, with the address of the query line before it; the query
  line alone puts nothing on the queue, invokes no lookup and sets \<open>last_query_ip\<close>.
\<close>

theorem blocked_only_scenario:
  "stream_logs scenario_dns True None v [(t1, scenario_query), (t2, scenario_block)]
     (connected hn u col) calls queue =
   (None,
    (connected hn u col)
      \<lparr>dns_cache := [''192.168.1.100'' \<mapsto> ''laptop.local''],
       last_query_ip := Some ''192.168.1.100''\<rparr>,
    calls @ [''192.168.1.100''],
    queue @ [formatted_blocked (connected hn u col) t2 ''laptop.local (192.168.1.100)''
               scenario_block]) \<and>
   stream_logs scenario_dns True None v [(t1, scenario_query)] (connected hn u col) calls queue =
   (None, (connected hn u col)\<lparr>last_query_ip := Some ''192.168.1.100''\<rparr>, calls, queue)"
proof -
  let ?st = "connected hn u col"
  let ?st1 = "?st\<lparr>last_query_ip := Some ''192.168.1.100''\<rparr>"
  have c: "client ?st" by (simp add: connected_def)
  have one: "stream_logs_body scenario_dns True None v t1 scenario_query ?st calls queue =
      (None, ?st1, calls, queue)"
    by (simp add: stream_logs_body_def strip_scenario scenario_nonempty scenario_query_parse)
  have r: "resolve_hostname scenario_dns ?st1 calls ''192.168.1.100'' =
      (Inr ''laptop.local'', ?st1\<lparr>dns_cache := [''192.168.1.100'' \<mapsto> ''laptop.local'']\<rparr>,
       calls @ [''192.168.1.100''])"
    by (simp add: resolve_hostname_def gethostbyaddr_def scenario_dns_def connected_def init_def)
  have two: "stream_logs_body scenario_dns True None v t2 scenario_block ?st1 calls queue =
      (None, ?st1\<lparr>dns_cache := [''192.168.1.100'' \<mapsto> ''laptop.local'']\<rparr>,
       calls @ [''192.168.1.100''],
       queue @ [formatted_blocked ?st t2 ''laptop.local (192.168.1.100)'' scenario_block])"
    by (simp add: stream_logs_body_def strip_scenario scenario_nonempty scenario_block_parse r
        host_filtered_out_def scenario_label formatted_same_streamer)
  show ?thesis
    by (simp add: stream_logs_def c scenario_nonempty one two)
qed

theorem blocked_only_scenario_witness:
  "snd (snd (snd (stream_logs scenario_dns True None False
     [(''12:00:00'', scenario_query), (''12:00:01'', scenario_block)]
     (connected ''pihole1'' ''pi'' CYAN) [] []))) =
   [formatted_blocked (connected ''pihole1'' ''pi'' CYAN) ''12:00:01''
      ''laptop.local (192.168.1.100)'' scenario_block]"
  using blocked_only_scenario [of False "''12:00:00''" "''12:00:01''" "''pihole1''" "''pi''" CYAN "[]" "[]"]
  by simp

text \<open>
  Claim C5, as amended. With no filters, the two lines of the scenario put two events on
  the queue: a query event that holds \<open>laptop.local (192.168.1.100)\<close> and whose
  description is the line up to \<open> from \<close>, log timestamp included, that is
  \<open>Oct  4 14:18:46: query[A] example.com\<close>; then a blocked event with the same address
  192.168.1.100, resolved from the cache without a second lookup.
\<close>

theorem end_to_end_scenario:
  "stream_logs scenario_dns False None v [(t1, scenario_query), (t2, scenario_block)]
     (connected hn u col) calls queue =
   (None,
    (connected hn u col)
      \<lparr>dns_cache := [''192.168.1.100'' \<mapsto> ''laptop.local''],
       last_query_ip := Some ''192.168.1.100''\<rparr>,
    calls @ [''192.168.1.100''],
    queue @ [formatted_query (connected hn u col) t1 ''laptop.local (192.168.1.100)''
               ''Oct  4 14:18:46: query[A] example.com'',
             formatted_blocked (connected hn u col) t2 ''laptop.local (192.168.1.100)''
               scenario_block]) \<and>
   sublist ''laptop.local (192.168.1.100)''
     (formatted_query (connected hn u col) t1 ''laptop.local (192.168.1.100)''
        ''Oct  4 14:18:46: query[A] example.com'')"
proof -
  let ?st = "connected hn u col"
  let ?st1 = "?st\<lparr>last_query_ip := Some ''192.168.1.100''\<rparr>"
  let ?st2 = "?st1\<lparr>dns_cache := [''192.168.1.100'' \<mapsto> ''laptop.local'']\<rparr>"
  let ?f1 = "formatted_query ?st t1 ''laptop.local (192.168.1.100)''
               ''Oct  4 14:18:46: query[A] example.com''"
  have c: "client ?st" by (simp add: connected_def)
  have r: "resolve_hostname scenario_dns ?st1 calls ''192.168.1.100'' =
      (Inr ''laptop.local'', ?st2, calls @ [''192.168.1.100''])"
    by (simp add: resolve_hostname_def gethostbyaddr_def scenario_dns_def connected_def init_def)
  have one: "stream_logs_body scenario_dns False None v t1 scenario_query ?st calls queue =
      (None, ?st2, calls @ [''192.168.1.100''], queue @ [?f1])"
    by (simp add: stream_logs_body_def strip_scenario scenario_nonempty scenario_query_parse r
        host_filtered_out_def scenario_label formatted_same_streamer)
  have r2: "resolve_hostname scenario_dns ?st2 (calls @ [''192.168.1.100'']) ''192.168.1.100'' =
      (Inr ''laptop.local'', ?st2, calls @ [''192.168.1.100''])"
    by (simp add: resolve_hostname_def)
  have two: "stream_logs_body scenario_dns False None v t2 scenario_block ?st2
       (calls @ [''192.168.1.100'']) (queue @ [?f1]) =
      (None, ?st2, calls @ [''192.168.1.100''],
       queue @ [?f1, formatted_blocked ?st t2 ''laptop.local (192.168.1.100)'' scenario_block])"
    by (simp add: stream_logs_body_def strip_scenario scenario_nonempty scenario_block_parse r2
        host_filtered_out_def scenario_label formatted_same_streamer)
  have "?f1 =
      (''['' @ t1 @ ''] '' @ color ?st @ ''['' @ hostname ?st @ '']'' @ RESET @ '' '' @ YELLOW @ ''['') @
      ''laptop.local (192.168.1.100)'' @
      ('']'' @ RESET @ '' '' @ ''Oct  4 14:18:46: query[A] example.com'')"
    by (simp add: formatted_query_def)
  then have sub: "sublist ''laptop.local (192.168.1.100)'' ?f1"
    unfolding sublist_def by blast
  have "stream_logs scenario_dns False None v [(t1, scenario_query), (t2, scenario_block)]
      ?st calls queue =
      (None, ?st2, calls @ [''192.168.1.100''],
       queue @ [?f1, formatted_blocked ?st t2 ''laptop.local (192.168.1.100)'' scenario_block])"
    by (simp add: stream_logs_def c scenario_nonempty one two)
  with sub show ?thesis by simp
qed

theorem end_to_end_scenario_witness:
  "snd (snd (snd (stream_logs scenario_dns False None False
     [(''12:00:00'', scenario_query), (''12:00:01'', scenario_block)]
     (connected ''pihole1'' ''pi'' CYAN) [] []))) =
   [formatted_query (connected ''pihole1'' ''pi'' CYAN) ''12:00:00''
      ''laptop.local (192.168.1.100)'' ''Oct  4 14:18:46: query[A] example.com'',
    formatted_blocked (connected ''pihole1'' ''pi'' CYAN) ''12:00:01''
      ''laptop.local (192.168.1.100)'' scenario_block]"
  using end_to_end_scenario [of False "''12:00:00''" "''12:00:01''" "''pihole1''" "''pi''" CYAN "[]" "[]"]
  by simp

text \<open>
  Claim C5 as stated fails: the description of the query event is not
  \<open>query[A] example.com\<close>; it starts with the timestamp of the log line.
\<close>

theorem description_counterexample:
  "fst (parse_log_line (connected ''pihole1'' ''pi'' CYAN) scenario_query) =
     Some (''Oct  4 14:18:46: query[A] example.com'', ''192.168.1.100'', False) \<and>
   ''Oct  4 14:18:46: query[A] example.com'' \<noteq> ''query[A] example.com'' \<and>
   snd (snd (snd (stream_logs scenario_dns False None False [(''12:00:00'', scenario_query)]
     (connected ''pihole1'' ''pi'' CYAN) [] []))) \<noteq>
   [formatted_query (connected ''pihole1'' ''pi'' CYAN) ''12:00:00''
      ''laptop.local (192.168.1.100)'' ''query[A] example.com'']"
proof -
  let ?st = "connected ''pihole1'' ''pi'' CYAN"
  let ?st1 = "?st\<lparr>last_query_ip := Some ''192.168.1.100''\<rparr>"
  let ?st2 = "?st1\<lparr>dns_cache := [''192.168.1.100'' \<mapsto> ''laptop.local'']\<rparr>"
  have c: "client ?st" by (simp add: connected_def)
  have r: "resolve_hostname scenario_dns ?st1 [] ''192.168.1.100'' =
      (Inr ''laptop.local'', ?st2, [''192.168.1.100''])"
    by (simp add: resolve_hostname_def gethostbyaddr_def scenario_dns_def connected_def init_def)
  have one: "stream_logs_body scenario_dns False None False ''12:00:00'' scenario_query ?st [] [] =
      (None, ?st2, [''192.168.1.100''],
       [formatted_query ?st ''12:00:00'' ''laptop.local (192.168.1.100)''
          ''Oct  4 14:18:46: query[A] example.com''])"
    by (simp add: stream_logs_body_def strip_scenario scenario_nonempty scenario_query_parse r
        host_filtered_out_def scenario_label formatted_same_streamer)
  show ?thesis
    by (simp add: stream_logs_def c scenario_nonempty one scenario_query_parse formatted_query_def)
qed

end
